theory Spec2Isabelle
  imports Complex_Main
begin

section \<open>Python values used by the bot\<close>

subsection \<open>Floats, as \<open>str\<close> prints them\<close>

text \<open>
  \<open>calculate_new_bid\<close> receives \<open>best_bid\<close> and \<open>max_price\<close> as Python floats and the
  first thing it does with each is \<open>Decimal(str(x))\<close>. A float is therefore represented
  by what \<open>str\<close> prints for it: \<open>Float s c e\<close> is the float whose shortest
  representation has sign \<open>s\<close> (\<open>True\<close> is negative), digits \<open>c\<close> and decimal exponent
  \<open>e\<close> (\<open>0.049\<close> is \<open>Float False 49 (-3)\<close>, \<open>1e+30\<close> is \<open>Float False 1 30\<close>,
  \<open>-0.0\<close> is \<open>Float True 0 (-1)\<close>), \<open>FloatInf s\<close> is \<open>inf\<close> or \<open>-inf\<close>, and
  \<open>FloatNaN\<close> is \<open>nan\<close>. \<open>str\<close> is one-to-one and strictly increasing on the finite
  floats, so the order of two floats is the numeric order of what \<open>str\<close> prints.
\<close>

datatype pyfloat = Float bool nat int | FloatInf bool | FloatNaN

subsection \<open>\<open>decimal.Decimal\<close>\<close>

text \<open>
  A \<open>Decimal\<close> is what \<open>as_tuple()\<close> shows: sign, coefficient and exponent of a finite
  number, or an infinity, or a quiet or signalling NaN.
\<close>

datatype decimal = Finite bool nat int | Infinity bool | NaN | sNaN

text \<open>\<open>Decimal(str(x))\<close> for a float \<open>x\<close>: exact, whatever the context.\<close>

fun Decimal_of_str :: "pyfloat \<Rightarrow> decimal" where
  "Decimal_of_str (Float s c e) = Finite s c e"
| "Decimal_of_str (FloatInf s) = Infinity s"
| "Decimal_of_str FloatNaN = NaN"

text \<open>
  The signals of the decimal module. An operation raises a set of them; the context
  records each in its flags, and a trapped one becomes a Python exception.
\<close>

datatype signal =
  Clamped | DivisionByZero | Inexact | InvalidOperation | Overflow | Rounded
  | Subnormal | Underflow

text \<open>
  The thread's context is the default one, which nothing in the repository changes:
  \<open>Context(prec=28, rounding=ROUND_HALF_EVEN, Emin=-999999, Emax=999999, clamp=0,
  traps=[InvalidOperation, DivisionByZero, Overflow])\<close>. Its flags are the only part an
  operation writes; they are the state threaded through the model.
\<close>

type_synonym flags = "signal set"

definition prec :: nat where "prec = 28"
definition Emax :: int where "Emax = 999999"
definition Emin :: int where "Emin = - 999999"
definition Etiny :: int where "Etiny = Emin - int prec + 1"
definition Etop :: int where "Etop = Emax - int prec + 1"

definition traps :: "signal set" where
  "traps = {InvalidOperation, DivisionByZero, Overflow}"

text \<open>
  What the module does with the signals of one operation: the flags are set, and a
  trapped signal is raised as the exception of that name.
\<close>

definition trap :: "signal set \<times> 'a \<Rightarrow> flags \<Rightarrow> (signal + 'a) \<times> flags" where
  "trap r fl =
     (if InvalidOperation \<in> fst r \<and> InvalidOperation \<in> traps then Inl InvalidOperation
      else if DivisionByZero \<in> fst r \<and> DivisionByZero \<in> traps then Inl DivisionByZero
      else if Overflow \<in> fst r \<and> Overflow \<in> traps then Inl Overflow
      else Inr (snd r),
      fl \<union> fst r)"

text \<open>The number of digits of a coefficient (\<open>0\<close> has one).\<close>

fun ndigits :: "nat \<Rightarrow> nat" where
  "ndigits n = (if n < 10 then 1 else Suc (ndigits (n div 10)))"

declare ndigits.simps [simp del]

definition adjusted :: "nat \<Rightarrow> int \<Rightarrow> int" where
  "adjusted c e = e + int (ndigits c) - 1"

definition signed_coeff :: "bool \<Rightarrow> nat \<Rightarrow> int" where
  "signed_coeff s c = (if s then - int c else int c)"

text \<open>\<open>ROUND_HALF_EVEN\<close>: the coefficient \<open>c\<close> without its last \<open>k\<close> digits.\<close>

definition round_half_even :: "nat \<Rightarrow> nat \<Rightarrow> nat" where
  "round_half_even c k =
     (let q = c div 10 ^ k; r = c mod 10 ^ k
      in if 2 * r > 10 ^ k \<or> (2 * r = 10 ^ k \<and> odd q) then q + 1 else q)"

text \<open>
  Rounding a finite result to the context (the module's \<open>_fix\<close>): at most \<open>prec\<close>
  digits, the exponent between \<open>Etiny\<close> and \<open>Emax\<close>.
\<close>

definition decimal_fix :: "bool \<Rightarrow> nat \<Rightarrow> int \<Rightarrow> signal set \<times> decimal" where
  "decimal_fix s c e =
     (if c = 0 then
        (let e' = min (max e Etiny) Emax
         in (if e' \<noteq> e then {Clamped} else {}, Finite s 0 e'))
      else
        let exp_min = int (ndigits c) + e - int prec in
        if exp_min > Etop then ({Overflow, Inexact, Rounded}, Infinity s)
        else
          let subnormal = exp_min < Etiny;
              exp_min = (if subnormal then Etiny else exp_min)
          in
          if e < exp_min then
            let k = nat (exp_min - e);
                coeff = round_half_even c k;
                changed = (c mod 10 ^ k \<noteq> 0);
                carry = (ndigits coeff > prec);
                coeff = (if carry then coeff div 10 else coeff);
                exp_min = (if carry then exp_min + 1 else exp_min)
            in
            if exp_min > Etop then ({Overflow, Inexact, Rounded}, Infinity s)
            else
              ({Rounded}
                 \<union> (if changed then {Inexact} else {})
                 \<union> (if subnormal then {Subnormal} else {})
                 \<union> (if changed \<and> subnormal then {Underflow} else {})
                 \<union> (if coeff = 0 then {Clamped} else {}),
               Finite s coeff exp_min)
          else (if subnormal then {Subnormal} else {}, Finite s c e))"

definition is_nan :: "decimal \<Rightarrow> bool" where
  "is_nan d = (d = NaN \<or> d = sNaN)"

text \<open>\<open>a + b\<close>: the exact sum at the smaller exponent, then rounded to the context.\<close>

fun add_finite :: "decimal \<Rightarrow> decimal \<Rightarrow> signal set \<times> decimal" where
  "add_finite (Finite s1 c1 e1) (Finite s2 c2 e2) =
     (let e = min e1 e2;
          v = signed_coeff s1 c1 * 10 ^ nat (e1 - e) + signed_coeff s2 c2 * 10 ^ nat (e2 - e);
          s = (if v = 0 then s1 \<and> s2 else v < 0)
      in decimal_fix s (nat \<bar>v\<bar>) e)"
| "add_finite (Infinity s1) (Infinity s2) =
     (if s1 \<noteq> s2 then ({InvalidOperation}, NaN) else ({}, Infinity s1))"
| "add_finite (Infinity s1) b = ({}, Infinity s1)"
| "add_finite a (Infinity s2) = ({}, Infinity s2)"
| "add_finite a b = ({}, NaN)"

definition decimal_add :: "decimal \<Rightarrow> decimal \<Rightarrow> signal set \<times> decimal" where
  "decimal_add a b =
     (if a = sNaN \<or> b = sNaN then ({InvalidOperation}, NaN)
      else if a = NaN \<or> b = NaN then ({}, NaN)
      else add_finite a b)"

text \<open>
  \<open>a.quantize(b, rounding=ROUND_DOWN)\<close>: \<open>a\<close> at the exponent of \<open>b\<close>, the digits below it
  cut off; \<open>InvalidOperation\<close> when the result would need more than \<open>prec\<close> digits.
\<close>

definition rescale_down :: "nat \<Rightarrow> int \<Rightarrow> int \<Rightarrow> nat" where
  "rescale_down c e e' =
     (if e \<ge> e' then c * 10 ^ nat (e - e') else c div 10 ^ nat (e' - e))"

fun quantize_finite :: "decimal \<Rightarrow> decimal \<Rightarrow> signal set \<times> decimal" where
  "quantize_finite (Finite s c e) (Finite s' c' e') =
     (if \<not> (Etiny \<le> e' \<and> e' \<le> Emax) then ({InvalidOperation}, NaN)
      else if c = 0 then decimal_fix s 0 e'
      else if adjusted c e > Emax then ({InvalidOperation}, NaN)
      else if adjusted c e - e' + 1 > int prec then ({InvalidOperation}, NaN)
      else
        let c2 = rescale_down c e e' in
        if adjusted c2 e' > Emax then ({InvalidOperation}, NaN)
        else if ndigits c2 > prec then ({InvalidOperation}, NaN)
        else
          let st = (if c2 \<noteq> 0 \<and> adjusted c2 e' < Emin then {Subnormal} else {})
                 \<union> (if e' > e
                    then {Rounded} \<union> (if c2 * 10 ^ nat (e' - e) \<noteq> c then {Inexact} else {})
                    else {})
          in (st \<union> fst (decimal_fix s c2 e'), snd (decimal_fix s c2 e')))"
| "quantize_finite (Infinity s) (Infinity s') = ({}, Infinity s)"
| "quantize_finite a b = ({InvalidOperation}, NaN)"

definition quantize_down :: "decimal \<Rightarrow> decimal \<Rightarrow> signal set \<times> decimal" where
  "quantize_down a b =
     (if a = sNaN \<or> b = sNaN then ({InvalidOperation}, NaN)
      else if a = NaN \<or> b = NaN then ({}, NaN)
      else quantize_finite a b)"

text \<open>
  The numeric order of two decimals, infinities included. A NaN is in no order with
  anything.
\<close>

fun num_le :: "decimal \<Rightarrow> decimal \<Rightarrow> bool" where
  "num_le (Finite s c e) (Finite s' c' e') =
     (let m = min e e'
      in signed_coeff s c * 10 ^ nat (e - m) \<le> signed_coeff s' c' * 10 ^ nat (e' - m))"
| "num_le (Infinity neg) (Finite s' c' e') = neg"
| "num_le (Finite s c e) (Infinity neg') = (\<not> neg')"
| "num_le (Infinity neg) (Infinity neg') = (neg \<or> \<not> neg')"
| "num_le a b = False"

definition num_lt :: "decimal \<Rightarrow> decimal \<Rightarrow> bool" where
  "num_lt a b = (num_le a b \<and> \<not> num_le b a)"

text \<open>\<open>a > b\<close> and \<open>a >= b\<close> on decimals: a NaN operand signals \<open>InvalidOperation\<close>.\<close>

definition decimal_gt :: "decimal \<Rightarrow> decimal \<Rightarrow> signal set \<times> bool" where
  "decimal_gt a b =
     (if is_nan a \<or> is_nan b then ({InvalidOperation}, False) else ({}, num_lt b a))"

definition decimal_ge :: "decimal \<Rightarrow> decimal \<Rightarrow> signal set \<times> bool" where
  "decimal_ge a b =
     (if is_nan a \<or> is_nan b then ({InvalidOperation}, False) else ({}, num_le b a))"

section \<open>\<open>bot.py\<close>: the bid calculator\<close>

text \<open>
  \<open>calculate_new_bid(best_bid, tick_size, max_price)\<close>. The result is the raised
  exception, or \<open>None\<close>, or the decimal \<open>new_bid\<close> that the source hands to \<open>float\<close> in
  its last line (\<open>float\<close> of a finite or infinite decimal does not fail; it yields the
  nearest binary float, which is outside this model). The unused local \<open>precision\<close>
  and the \<open>print\<close> calls, which only write to standard output, are left out.
\<close>

definition calculate_new_bid ::
  "pyfloat \<Rightarrow> decimal \<Rightarrow> pyfloat \<Rightarrow> flags \<Rightarrow> (signal + decimal option) \<times> flags" where
  "calculate_new_bid best_bid tick_size max_price fl =
     (let best_bid_decimal = Decimal_of_str best_bid;
          max_price_decimal = Decimal_of_str max_price
      in case trap (decimal_add best_bid_decimal tick_size) fl of
           (Inl ex, fl1) \<Rightarrow> (Inl ex, fl1)
         | (Inr new_bid, fl1) \<Rightarrow>
       (case trap (quantize_down new_bid tick_size) fl1 of
           (Inl ex, fl2) \<Rightarrow> (Inl ex, fl2)
         | (Inr new_bid, fl2) \<Rightarrow>
       (case trap (decimal_gt new_bid max_price_decimal) fl2 of
           (Inl ex, fl3) \<Rightarrow> (Inl ex, fl3)
         | (Inr True, fl3) \<Rightarrow> (Inr None, fl3)
         | (Inr False, fl3) \<Rightarrow>
       (case trap (decimal_ge best_bid_decimal max_price_decimal) fl3 of
           (Inl ex, fl4) \<Rightarrow> (Inl ex, fl4)
         | (Inr True, fl4) \<Rightarrow> (Inr None, fl4)
         | (Inr False, fl4) \<Rightarrow> (Inr (Some new_bid), fl4)))))"

text \<open>
  The candidate price of a call: the sum, quantized, or the exception that the
  addition or the quantize raises.
\<close>

definition candidate :: "pyfloat \<Rightarrow> decimal \<Rightarrow> signal + decimal" where
  "candidate best_bid tick_size =
     (case fst (trap (decimal_add (Decimal_of_str best_bid) tick_size) {}) of
        Inl ex \<Rightarrow> Inl ex
      | Inr new_bid \<Rightarrow> fst (trap (quantize_down new_bid tick_size) {}))"

text \<open>
  A price is on the grid of a tick when it is an integer multiple of it, both taken
  as integers at the smaller of the two exponents.
\<close>

fun tick_aligned :: "decimal \<Rightarrow> decimal \<Rightarrow> bool" where
  "tick_aligned (Finite s c e) (Finite s' c' e') =
     (let m = min e e'
      in (signed_coeff s' c' * 10 ^ nat (e' - m)) dvd (signed_coeff s c * 10 ^ nat (e - m)))"
| "tick_aligned a b = False"




section \<open>\<open>config.py\<close>\<close>

record config =
  HOST :: string
  CHAIN_ID :: int
  PRIVATE_KEY :: string
  FUNDER_ADDRESS :: string
  MAX_BID_PRICE :: pyfloat
  ORDER_SIZE :: pyfloat
  DRY_RUN :: bool

text \<open>
  The exceptions of a run: \<open>ValueError\<close>, the exceptions of the decimal module, and
  whatever the client library raises.
\<close>

datatype exn = ValueError string | DecimalException signal | ClientError string

definition startswith :: "string \<Rightarrow> string \<Rightarrow> bool" where
  "startswith s p = (take (length p) s = p)"

fun join :: "string \<Rightarrow> string list \<Rightarrow> string" where
  "join sep [] = []"
| "join sep [x] = x"
| "join sep (x # xs) = x @ sep @ join sep xs"

text \<open>Comparisons of floats: with a \<open>nan\<close> operand each of them is \<open>False\<close>.\<close>

definition float_le :: "pyfloat \<Rightarrow> pyfloat \<Rightarrow> bool" where
  "float_le x y = num_le (Decimal_of_str x) (Decimal_of_str y)"

definition float_lt :: "pyfloat \<Rightarrow> pyfloat \<Rightarrow> bool" where
  "float_lt x y = num_lt (Decimal_of_str x) (Decimal_of_str y)"

definition float_0 :: pyfloat where
  "float_0 = Float False 0 (- 1)"

definition validate :: "config \<Rightarrow> exn + unit" where
  "validate cls =
     (let errors = [];
          errors =
            (if PRIVATE_KEY cls = [] then errors @ [''POLYMARKET_PRIVATE_KEY is not set'']
             else if \<not> startswith (PRIVATE_KEY cls) ''0x''
             then errors @ [''POLYMARKET_PRIVATE_KEY must start with '' @ [CHR 0x27] @ ''0x'' @ [CHR 0x27]]
             else errors);
          errors =
            (if FUNDER_ADDRESS cls = [] then errors @ [''POLYMARKET_FUNDER_ADDRESS is not set'']
             else if \<not> startswith (FUNDER_ADDRESS cls) ''0x''
             then errors @ [''POLYMARKET_FUNDER_ADDRESS must start with '' @ [CHR 0x27] @ ''0x'' @ [CHR 0x27]]
             else errors);
          errors =
            (if float_le (MAX_BID_PRICE cls) float_0
             then errors @ [''MAX_BID_PRICE must be positive''] else errors);
          errors =
            (if float_le (ORDER_SIZE cls) float_0
             then errors @ [''ORDER_SIZE must be positive''] else errors)
      in if errors \<noteq> []
         then Inl (ValueError (''Configuration errors:'' @ [CHR 0x0A] @ ''  - ''
                     @ join ([CHR 0x0A] @ ''  - '') errors))
         else Inr ())"

section \<open>\<open>bot.py\<close>: the run\<close>

text \<open>The namespace that \<open>parse_args\<close> returns.\<close>

record args =
  arg_token_id :: string
  arg_dry_run :: "bool option"
  arg_no_dry_run :: bool
  arg_max_price :: "pyfloat option"
  arg_size :: "pyfloat option"

datatype side = BUY | SELL

datatype order_type = GTC | FOK | GTD

datatype order_args = OrderArgs string decimal pyfloat side

text \<open>
  The calls that reach the client library \<open>py_clob_client\<close>, each with its arguments.
  Credentials, signed orders and responses are opaque; they are strings here.
\<close>

datatype call =
  New_client string string int int string
  | Create_or_derive_api_creds
  | Set_api_creds string
  | Get_order_book string
  | Get_tick_size string
  | Create_order order_args
  | Post_order string order_type

text \<open>
  What is outside the repository: the answers of the client library (an exception or
  a value; of an order book only the prices of its bids are read), and the parsers of
  \<open>float(s)\<close> and \<open>Decimal(s)\<close> (\<open>None\<close> for a malformed string).
\<close>

record collaborators =
  client_new :: "string \<Rightarrow> string \<Rightarrow> int \<Rightarrow> int \<Rightarrow> string \<Rightarrow> exn + unit"
  client_create_or_derive_api_creds :: "exn + string"
  client_set_api_creds :: "string \<Rightarrow> exn + unit"
  client_get_order_book :: "string \<Rightarrow> exn + string list"
  client_get_tick_size :: "string \<Rightarrow> exn + string"
  client_create_order :: "order_args \<Rightarrow> exn + string"
  client_post_order :: "string \<Rightarrow> order_type \<Rightarrow> exn + string"
  py_float :: "string \<Rightarrow> pyfloat option"
  py_Decimal :: "string \<Rightarrow> decimal option"

text \<open>
  The state of a run: the flags of the decimal context, and the calls made to the
  client library so far, in order.
\<close>

record state =
  ctx_flags :: flags
  calls :: "call list"

type_synonym 'a io = "state \<Rightarrow> (exn + 'a) \<times> state"

definition return_io :: "'a \<Rightarrow> 'a io" where
  "return_io x st = (Inr x, st)"

definition raise_io :: "exn \<Rightarrow> 'a io" where
  "raise_io ex st = (Inl ex, st)"

definition bind_io :: "'a io \<Rightarrow> ('a \<Rightarrow> 'b io) \<Rightarrow> 'b io" where
  "bind_io m f st = (case m st of (Inl ex, st') \<Rightarrow> (Inl ex, st') | (Inr x, st') \<Rightarrow> f x st')"

definition call_client :: "call \<Rightarrow> exn + 'a \<Rightarrow> 'a io" where
  "call_client c answer st = (answer, st\<lparr>calls := calls st @ [c]\<rparr>)"

definition initialize_client :: "collaborators \<Rightarrow> config \<Rightarrow> unit io" where
  "initialize_client cl cfg =
     bind_io (call_client (New_client (HOST cfg) (PRIVATE_KEY cfg) (CHAIN_ID cfg) 2 (FUNDER_ADDRESS cfg))
               (client_new cl (HOST cfg) (PRIVATE_KEY cfg) (CHAIN_ID cfg) 2 (FUNDER_ADDRESS cfg)))
       (\<lambda>_. bind_io (call_client Create_or_derive_api_creds (client_create_or_derive_api_creds cl))
       (\<lambda>creds. call_client (Set_api_creds creds) (client_set_api_creds cl creds)))"

text \<open>\<open>float(bid.price) for bid in order_book.bids\<close>: the first malformed price raises.\<close>

fun floats :: "(string \<Rightarrow> pyfloat option) \<Rightarrow> string list \<Rightarrow> exn + pyfloat list" where
  "floats f [] = Inr []"
| "floats f (s # ss) =
     (case f s of
        None \<Rightarrow> Inl (ValueError (''could not convert string to float: '' @ s))
      | Some x \<Rightarrow> (case floats f ss of Inl ex \<Rightarrow> Inl ex | Inr xs \<Rightarrow> Inr (x # xs)))"

text \<open>\<open>max\<close> of a non-empty sequence: a later item replaces the maximum when it is greater.\<close>

definition py_max :: "pyfloat \<Rightarrow> pyfloat list \<Rightarrow> pyfloat" where
  "py_max x xs = foldl (\<lambda>m y. if float_lt m y then y else m) x xs"

definition get_best_bid :: "collaborators \<Rightarrow> string \<Rightarrow> pyfloat io" where
  "get_best_bid cl token_id =
     bind_io (call_client (Get_order_book token_id) (client_get_order_book cl token_id))
       (\<lambda>bids.
          if bids = [] then return_io float_0
          else (case floats (py_float cl) bids of
                  Inl ex \<Rightarrow> raise_io ex
                | Inr [] \<Rightarrow> return_io float_0
                | Inr (x # xs) \<Rightarrow> return_io (py_max x xs)))"

definition get_tick_size :: "collaborators \<Rightarrow> string \<Rightarrow> decimal io" where
  "get_tick_size cl token_id =
     bind_io (call_client (Get_tick_size token_id) (client_get_tick_size cl token_id))
       (\<lambda>tick_size_str.
          case py_Decimal cl tick_size_str of
            None \<Rightarrow>
              (\<lambda>st. (Inl (DecimalException InvalidOperation),
                     st\<lparr>ctx_flags := ctx_flags st \<union> {InvalidOperation}\<rparr>))
          | Some tick_size \<Rightarrow> return_io tick_size)"

text \<open>\<open>calculate_new_bid\<close> inside a run: it reads and writes the flags of the state.\<close>

definition calculate_new_bid_io :: "pyfloat \<Rightarrow> decimal \<Rightarrow> pyfloat \<Rightarrow> decimal option io" where
  "calculate_new_bid_io best_bid tick_size max_price st =
     (case calculate_new_bid best_bid tick_size max_price (ctx_flags st) of
        (Inl ex, fl) \<Rightarrow> (Inl (DecimalException ex), st\<lparr>ctx_flags := fl\<rparr>)
      | (Inr r, fl) \<Rightarrow> (Inr r, st\<lparr>ctx_flags := fl\<rparr>))"

definition place_order ::
  "collaborators \<Rightarrow> string \<Rightarrow> decimal \<Rightarrow> pyfloat \<Rightarrow> bool \<Rightarrow> string option io" where
  "place_order cl token_id price size_shares dry_run =
     (if dry_run then return_io None
      else
        let order_args = OrderArgs token_id price size_shares BUY
        in bind_io (call_client (Create_order order_args) (client_create_order cl order_args))
             (\<lambda>signed_order.
                bind_io (call_client (Post_order signed_order GTC) (client_post_order cl signed_order GTC))
                  (\<lambda>response. return_io (Some response))))"

text \<open>
  \<open>main\<close>, from the outcome of \<open>parse_args\<close> (the namespace, or the exit status with
  which \<open>argparse\<close> ends the process) to the exit status of the process.
\<close>

definition main :: "collaborators \<Rightarrow> int + args \<Rightarrow> config \<Rightarrow> state \<Rightarrow> int \<times> state" where
  "main cl parsed cfg st =
     (case parsed of
        Inl status \<Rightarrow> (status, st)
      | Inr args \<Rightarrow>
          (case validate cfg of
             Inl e \<Rightarrow> (1, st)
           | Inr _ \<Rightarrow>
               let max_price = (case arg_max_price args of Some p \<Rightarrow> p | None \<Rightarrow> MAX_BID_PRICE cfg);
                   order_size = (case arg_size args of Some s \<Rightarrow> s | None \<Rightarrow> ORDER_SIZE cfg);
                   dry_run =
                     (if arg_no_dry_run args then False
                      else if arg_dry_run args = Some True then True
                      else DRY_RUN cfg)
               in case
                    bind_io (initialize_client cl cfg)
                      (\<lambda>_. bind_io (get_best_bid cl (arg_token_id args))
                      (\<lambda>best_bid. bind_io (get_tick_size cl (arg_token_id args))
                      (\<lambda>tick_size. bind_io (calculate_new_bid_io best_bid tick_size max_price)
                      (\<lambda>new_bid.
                         case new_bid of
                           None \<Rightarrow> return_io 0
                         | Some price \<Rightarrow>
                             bind_io (place_order cl (arg_token_id args) price order_size dry_run)
                               (\<lambda>_. return_io 0))))) st
                  of (Inl e, st') \<Rightarrow> (1, st')
                   | (Inr status, st') \<Rightarrow> (status, st')))"

section \<open>Properties\<close>

lemmas decimal_eval =
  calculate_new_bid_def trap_def traps_def decimal_add_def decimal_fix_def quantize_down_def
  round_half_even_def decimal_gt_def decimal_ge_def is_nan_def num_lt_def signed_coeff_def
  ndigits.simps prec_def Emax_def Emin_def Etiny_def Etop_def adjusted_def rescale_down_def
  Let_def

lemmas ctx_defs = prec_def Emax_def Emin_def Etiny_def Etop_def

lemma fst_trap: "fst (trap r fl) = fst (trap r {})"
  by (simp add: trap_def)

lemma num_le_total: "\<not> is_nan a \<Longrightarrow> \<not> is_nan b \<Longrightarrow> num_le a b \<or> num_le b a"
  by (cases a; cases b) (auto simp: is_nan_def Let_def min.commute)

lemma not_num_lt: "\<not> is_nan a \<Longrightarrow> \<not> is_nan b \<Longrightarrow> \<not> num_lt b a \<Longrightarrow> num_le a b"
  using num_le_total [of a b] by (auto simp: num_lt_def)

lemma num_le_not_nan: "num_le a b \<Longrightarrow> \<not> is_nan a \<and> \<not> is_nan b"
  by (cases a; cases b) (auto simp: is_nan_def)

text \<open>The result of a call does not depend on the flags; it is this function of the inputs.\<close>

lemma calculate_new_bid_result:
  "fst (calculate_new_bid b t m fl) =
     (case candidate b t of
        Inl ex \<Rightarrow> Inl ex
      | Inr p \<Rightarrow>
          if is_nan p \<or> is_nan (Decimal_of_str m) then Inl InvalidOperation
          else if num_lt (Decimal_of_str m) p then Inr None
          else if is_nan (Decimal_of_str b) then Inl InvalidOperation
          else if num_le (Decimal_of_str m) (Decimal_of_str b) then Inr None
          else Inr (Some p))"
  unfolding calculate_new_bid_def candidate_def Let_def
  by (auto simp: trap_def traps_def decimal_gt_def decimal_ge_def
      split: prod.splits sum.splits bool.splits)

subsection \<open>Counting digits\<close>


lemma ndigits_pos: "0 < ndigits n"
  by (subst ndigits.simps) simp

lemma ndigits_upper: "n < 10 ^ ndigits n"
proof (induction n rule: ndigits.induct)
  case (1 n)
  show ?case
  proof (cases "n < 10")
    case True
    then show ?thesis by (subst ndigits.simps) simp
  next
    case False
    with 1 have "n div 10 < 10 ^ ndigits (n div 10)" by simp
    then have "n < 10 * 10 ^ ndigits (n div 10)" by simp
    with False show ?thesis by (subst ndigits.simps) simp
  qed
qed

lemma ndigits_lower: "n \<noteq> 0 \<Longrightarrow> 10 ^ (ndigits n - 1) \<le> n"
proof (induction n rule: ndigits.induct)
  case (1 n)
  show ?case
  proof (cases "n < 10")
    case True
    with 1(2) show ?thesis by (subst ndigits.simps) simp
  next
    case False
    then have "n div 10 \<noteq> 0" by simp
    with 1 False have "10 ^ (ndigits (n div 10) - 1) \<le> n div 10" by simp
    then have "10 * 10 ^ (ndigits (n div 10) - 1) \<le> n" by simp
    moreover have "10 * (10::nat) ^ (ndigits (n div 10) - 1) = 10 ^ ndigits (n div 10)"
      using ndigits_pos [of "n div 10"] by (cases "ndigits (n div 10)") simp_all
    ultimately show ?thesis using False by (subst ndigits.simps) simp
  qed
qed

lemma ndigits_le: "n < 10 ^ k \<Longrightarrow> 0 < k \<Longrightarrow> ndigits n \<le> k"
proof (rule ccontr)
  assume a: "n < 10 ^ k" "0 < k" "\<not> ndigits n \<le> k"
  then have "k \<le> ndigits n - 1" by simp
  then have p: "(10::nat) ^ k \<le> 10 ^ (ndigits n - 1)" by (rule power_increasing) simp
  have "n \<noteq> 0"
  proof
    assume "n = 0"
    then have "ndigits n = 1" by (subst ndigits.simps) simp
    with a show False by simp
  qed
  then have "10 ^ (ndigits n - 1) \<le> n" by (rule ndigits_lower)
  with p have "10 ^ k \<le> n" by (rule order_trans)
  with a(1) show False by simp
qed

lemma ndigits_ge: "10 ^ k \<le> n \<Longrightarrow> k < ndigits n"
proof (rule ccontr)
  assume a: "10 ^ k \<le> n" "\<not> k < ndigits n"
  then have "ndigits n \<le> k" by simp
  then have "(10::nat) ^ ndigits n \<le> 10 ^ k" by (rule power_increasing) simp
  then have "10 ^ ndigits n \<le> n" using a(1) by (rule order_trans)
  with ndigits_upper [of n] show False by simp
qed

lemma ndigits_unique: "10 ^ k \<le> n \<Longrightarrow> n < 10 ^ Suc k \<Longrightarrow> ndigits n = Suc k"
  using ndigits_le [of n "Suc k"] ndigits_ge [of k n] by simp

lemma ndigits_mono: "m \<le> n \<Longrightarrow> ndigits m \<le> ndigits n"
  using ndigits_le [of m "ndigits n"] ndigits_upper [of n] ndigits_pos [of n] by simp

lemma ndigits_mult_pow: "n \<noteq> 0 \<Longrightarrow> ndigits (n * 10 ^ k) = ndigits n + k"
proof -
  assume n: "n \<noteq> 0"
  obtain d where d: "ndigits n = Suc d" using ndigits_pos [of n] by (cases "ndigits n") simp_all
  have "10 ^ d \<le> n" using ndigits_lower [OF n] d by simp
  then have "10 ^ d * 10 ^ k \<le> n * 10 ^ k" by simp
  then have l: "10 ^ (d + k) \<le> n * 10 ^ k" by (simp add: power_add)
  have "n < 10 ^ Suc d" using ndigits_upper [of n] d by simp
  then have "n * 10 ^ k < 10 ^ Suc d * 10 ^ k" by simp
  then have u: "n * 10 ^ k < 10 ^ Suc (d + k)" by (simp add: power_add)
  from ndigits_unique [OF l u] d show ?thesis by simp
qed

subsection \<open>No NaN without a signal\<close>

lemma fix_not_nan: "\<not> is_nan (snd (decimal_fix s c e))"
  by (simp add: decimal_fix_def Let_def is_nan_def)

lemma add_not_nan:
  "\<not> is_nan a \<Longrightarrow> \<not> is_nan b \<Longrightarrow>
   \<not> is_nan (snd (decimal_add a b)) \<or> InvalidOperation \<in> fst (decimal_add a b)"
  using fix_not_nan
  by (cases a; cases b) (simp_all add: decimal_add_def is_nan_def Let_def)

lemma quantize_not_nan:
  "\<not> is_nan a \<Longrightarrow> \<not> is_nan b \<Longrightarrow>
   \<not> is_nan (snd (quantize_down a b)) \<or> InvalidOperation \<in> fst (quantize_down a b)"
  using fix_not_nan
  by (cases a; cases b) (simp_all add: quantize_down_def is_nan_def Let_def)

lemma candidate_not_nan:
  assumes "\<not> is_nan (Decimal_of_str b)" "\<not> is_nan t" "candidate b t = Inr p"
  shows "\<not> is_nan p"
proof -
  from assms(3) obtain nb where
    nb: "fst (trap (decimal_add (Decimal_of_str b) t) {}) = Inr nb"
    and p: "fst (trap (quantize_down nb t) {}) = Inr p"
    by (auto simp: candidate_def split: sum.splits)
  from nb add_not_nan [OF assms(1,2)] have "\<not> is_nan nb"
    by (auto simp: trap_def traps_def split: if_splits)
  with p quantize_not_nan [OF _ assms(2), of nb] show ?thesis
    by (auto simp: trap_def traps_def split: if_splits)
qed

subsection \<open>Rounding to the context\<close>

lemma fix_signals:
  "InvalidOperation \<notin> fst (decimal_fix s c e) \<and> DivisionByZero \<notin> fst (decimal_fix s c e)"
  by (simp add: decimal_fix_def Let_def)

lemma fix_zero:
  "snd (decimal_fix s 0 e) = Finite s 0 (min (max e Etiny) Emax) \<and> Overflow \<notin> fst (decimal_fix s 0 e)"
  by (simp add: decimal_fix_def Let_def)

lemma fix_id:
  assumes "c \<noteq> 0" "ndigits c \<le> prec" "Etiny \<le> e" "adjusted c e \<le> Emax"
  shows "snd (decimal_fix s c e) = Finite s c e \<and> Overflow \<notin> fst (decimal_fix s c e)"
  using assms by (simp add: decimal_fix_def Let_def adjusted_def Etop_def)

lemma rhe_bounds:
  "c div 10 ^ k \<le> round_half_even c k \<and> round_half_even c k \<le> c div 10 ^ k + 1"
  by (simp add: round_half_even_def Let_def)

lemma div_pow_lt: "(c::nat) < 10 ^ (k + p) \<Longrightarrow> c div 10 ^ k < 10 ^ p"
  by (simp add: less_mult_imp_div_less power_add mult.commute)

lemma div_pow_ge: "(10::nat) ^ (k + p) \<le> c \<Longrightarrow> 10 ^ p \<le> c div 10 ^ k"
proof -
  assume "(10::nat) ^ (k + p) \<le> c"
  then have "(10::nat) ^ (k + p) div 10 ^ k \<le> c div 10 ^ k" by (rule div_le_mono)
  then show ?thesis by (simp add: power_add)
qed

lemma fix_unfold:
  fixes c :: nat and e :: int and s :: bool
  assumes c: "c \<noteq> 0"
  defines "em \<equiv> int (ndigits c) + e - int prec"
  defines "em' \<equiv> (if em < Etiny then Etiny else em)"
  defines "coeff0 \<equiv> round_half_even c (nat (em' - e))"
  defines "carry \<equiv> prec < ndigits coeff0"
  shows "decimal_fix s c e =
     (if em > Etop then ({Overflow, Inexact, Rounded}, Infinity s)
      else if e < em' then
        (if (if carry then em' + 1 else em') > Etop then ({Overflow, Inexact, Rounded}, Infinity s)
         else ({Rounded}
                 \<union> (if c mod 10 ^ nat (em' - e) \<noteq> 0 then {Inexact} else {})
                 \<union> (if em < Etiny then {Subnormal} else {})
                 \<union> (if c mod 10 ^ nat (em' - e) \<noteq> 0 \<and> em < Etiny then {Underflow} else {})
                 \<union> (if (if carry then coeff0 div 10 else coeff0) = 0 then {Clamped} else {}),
               Finite s (if carry then coeff0 div 10 else coeff0) (if carry then em' + 1 else em')))
      else (if em < Etiny then {Subnormal} else {}, Finite s c e))"
  unfolding decimal_fix_def Let_def em_def em'_def coeff0_def carry_def using c by simp

lemma fix_rounded:
  fixes c :: nat and e :: int and s :: bool
  assumes c: "c \<noteq> 0" and ov: "Overflow \<notin> fst (decimal_fix s c e)"
  shows "snd (decimal_fix s c e) = Finite s c e \<or>
     (\<exists>k c' e'. snd (decimal_fix s c e) = Finite s c' e' \<and> 0 < k \<and> e + int k \<le> e'
        \<and> e' \<le> e + int k + 1
        \<and> (c div 10 ^ k) * 10 ^ k \<le> c' * 10 ^ nat (e' - e)
        \<and> c' * 10 ^ nat (e' - e) \<le> (c div 10 ^ k + 1) * 10 ^ k
        \<and> (e + int k = Etiny \<or> (prec \<le> ndigits c' \<and> int k = int (ndigits c) - int prec)))"
proof -
  define em where "em = int (ndigits c) + e - int prec"
  define em' where "em' = (if em < Etiny then Etiny else em)"
  define k where "k = nat (em' - e)"
  define coeff0 where "coeff0 = round_half_even c k"
  define carry where "carry = (prec < ndigits coeff0)"
  define c' where "c' = (if carry then coeff0 div 10 else coeff0)"
  define e' where "e' = (if carry then em' + 1 else em')"
  define q where "q = c div 10 ^ k"
  note u = fix_unfold [OF c, of s e, folded em_def, folded em'_def, folded k_def,
      folded coeff0_def, folded carry_def, folded c'_def e'_def]
  from ov u have no1: "\<not> em > Etop" by (auto split: if_splits)
  show ?thesis
  proof (cases "e < em'")
    case False
    with u no1 have "snd (decimal_fix s c e) = Finite s c e" by simp
    then show ?thesis ..
  next
    case True
    with ov u no1 have res: "snd (decimal_fix s c e) = Finite s c' e'"
      by (auto split: if_splits)
    from True have k: "0 < k" "em' = e + int k" by (simp_all add: k_def)
    have qb: "q \<le> coeff0" "coeff0 \<le> q + 1"
      using rhe_bounds [of c k] by (simp_all add: q_def coeff0_def)
    have emle: "em \<le> em'" by (simp add: em'_def)
    have nd: "ndigits c \<le> k + prec" using emle k by (simp add: em_def)
    have "c < 10 ^ ndigits c" by (rule ndigits_upper)
    also have "\<dots> \<le> 10 ^ (k + prec)" using nd by (rule power_increasing) simp
    finally have "q < 10 ^ prec" unfolding q_def by (rule div_pow_lt)
    with qb have c0: "coeff0 \<le> 10 ^ prec" by simp
    have carry_eq: "coeff0 = 10 ^ prec" if carry
    proof (rule ccontr)
      assume "coeff0 \<noteq> 10 ^ prec"
      with c0 have "coeff0 < 10 ^ prec" by simp
      then have "ndigits coeff0 \<le> prec" by (rule ndigits_le) (simp add: prec_def)
      with that show False by (simp add: carry_def)
    qed
    have val: "c' * 10 ^ nat (e' - e) = coeff0 * 10 ^ k"
    proof (cases carry)
      case True
      then have "c' = 10 ^ (prec - 1)" using carry_eq by (simp add: c'_def prec_def)
      moreover have "nat (e' - e) = Suc k" using True k by (simp add: e'_def)
      ultimately show ?thesis using carry_eq [OF True] by (simp add: prec_def)
    next
      case False
      then show ?thesis using k by (simp add: c'_def e'_def)
    qed
    have e'b: "e + int k \<le> e'" "e' \<le> e + int k + 1" using k by (simp_all add: e'_def)
    have dig: "e + int k = Etiny \<or> (prec \<le> ndigits c' \<and> int k = int (ndigits c) - int prec)"
    proof (cases "em < Etiny")
      case True
      then show ?thesis using k by (simp add: em'_def)
    next
      case False
      then have keq: "int k = int (ndigits c) - int prec" using k by (simp add: em'_def em_def)
      then have ndk: "ndigits c = k + prec" by simp
      obtain d where d: "ndigits c = Suc d" using ndigits_pos [of c] by (cases "ndigits c") simp_all
      have "10 ^ d \<le> c" using ndigits_lower [OF c] d by simp
      moreover have "d = k + (prec - 1)" using d ndk by (simp add: prec_def)
      ultimately have "10 ^ (k + (prec - 1)) \<le> c" by simp
      then have ql: "10 ^ (prec - 1) \<le> q" unfolding q_def by (rule div_pow_ge)
      have "10 ^ (prec - 1) \<le> c'"
      proof (cases carry)
        case True
        then show ?thesis using carry_eq by (simp add: c'_def prec_def)
      next
        case False
        then show ?thesis using ql qb by (simp add: c'_def)
      qed
      then have "prec - 1 < ndigits c'" by (rule ndigits_ge)
      then have "prec \<le> ndigits c'" by simp
      with keq show ?thesis by simp
    qed
    have lo: "(c div 10 ^ k) * 10 ^ k \<le> c' * 10 ^ nat (e' - e)"
      using qb(1) by (simp add: val q_def)
    have hi: "c' * 10 ^ nat (e' - e) \<le> (c div 10 ^ k + 1) * 10 ^ k"
      using qb(2) unfolding val q_def by (rule mult_le_mono1)
    from res k(1) e'b lo hi dig show ?thesis by blast
  qed
qed

subsection \<open>Quantizing\<close>

lemma ndigits_0: "ndigits 0 = 1"
  by (subst ndigits.simps) simp

lemma quantize_ok:
  assumes "fst (trap (quantize_down (Finite s c e) (Finite s' c' e')) fl) = Inr p"
  shows "Etiny \<le> e' \<and> e' \<le> Emax \<and> p = Finite s (rescale_down c e e') e'
         \<and> (c \<noteq> 0 \<longrightarrow> adjusted c e - e' + 1 \<le> int prec)"
proof -
  from assms have q: "InvalidOperation \<notin> fst (quantize_finite (Finite s c e) (Finite s' c' e'))"
    and p: "p = snd (quantize_finite (Finite s c e) (Finite s' c' e'))"
    by (auto simp: quantize_down_def trap_def traps_def split: if_splits)
  from q have rng: "Etiny \<le> e'" "e' \<le> Emax" by (auto split: if_splits)
  show ?thesis
  proof (cases "c = 0")
    case True
    with p rng show ?thesis using fix_zero [of s e'] by (simp add: rescale_down_def)
  next
    case False
    define c2 where "c2 = rescale_down c e e'"
    from q False rng have chk: "adjusted c e - e' + 1 \<le> int prec" "adjusted c2 e' \<le> Emax"
      "ndigits c2 \<le> prec" "adjusted c e \<le> Emax"
      by (auto simp: Let_def c2_def split: if_splits)
    from p False rng chk have p2: "p = snd (decimal_fix s c2 e')"
      by (simp add: Let_def c2_def)
    have "snd (decimal_fix s c2 e') = Finite s c2 e'"
    proof (cases "c2 = 0")
      case True
      then show ?thesis using fix_zero [of s e'] rng by simp
    next
      case False
      then show ?thesis using fix_id [OF False chk(3) rng(1) chk(2)] by simp
    qed
    with p2 rng chk(1) show ?thesis by (simp add: c2_def)
  qed
qed

lemma quantize_finite_only:
  assumes "fst (trap (quantize_down a (Finite s' c' e')) fl) = Inr p" "\<not> is_nan p"
  shows "\<exists>s c e. a = Finite s c e"
  using assms by (cases a) (auto simp: quantize_down_def trap_def traps_def is_nan_def split: if_splits)



lemma returned_price:
  assumes "fst (calculate_new_bid b t m fl) = Inr (Some p)"
  shows "\<exists>nb. fst (trap (decimal_add (Decimal_of_str b) t) {}) = Inr nb
            \<and> fst (trap (quantize_down nb t) {}) = Inr p"
    and "\<not> is_nan p" and "\<not> is_nan (Decimal_of_str b)" and "\<not> is_nan (Decimal_of_str m)"
    and "\<not> num_lt (Decimal_of_str m) p" and "\<not> num_le (Decimal_of_str m) (Decimal_of_str b)"
proof -
  from assms obtain p' where c: "candidate b t = Inr p'"
    by (cases "candidate b t") (simp_all add: calculate_new_bid_result)
  with assms have *: "p' = p" "\<not> is_nan p" "\<not> is_nan (Decimal_of_str b)"
    "\<not> is_nan (Decimal_of_str m)" "\<not> num_lt (Decimal_of_str m) p"
    "\<not> num_le (Decimal_of_str m) (Decimal_of_str b)"
    by (auto simp: calculate_new_bid_result split: if_splits)
  from c * show "\<exists>nb. fst (trap (decimal_add (Decimal_of_str b) t) {}) = Inr nb
            \<and> fst (trap (quantize_down nb t) {}) = Inr p"
    by (auto simp: candidate_def split: sum.splits)
  from * show "\<not> is_nan p" "\<not> is_nan (Decimal_of_str b)" "\<not> is_nan (Decimal_of_str m)"
    "\<not> num_lt (Decimal_of_str m) p" "\<not> num_le (Decimal_of_str m) (Decimal_of_str b)"
    by simp_all
qed





lemma rescale_digits:
  assumes c: "c \<noteq> 0"
  shows "rescale_down c e e' = 0 \<or>
         (adjusted (rescale_down c e e') e' \<le> adjusted c e
          \<and> int (ndigits (rescale_down c e e')) \<le> adjusted c e - e' + 1)"
proof (cases "e' \<le> e")
  case True
  then have "rescale_down c e e' = c * 10 ^ nat (e - e')" by (simp add: rescale_down_def)
  moreover have "ndigits (c * 10 ^ nat (e - e')) = ndigits c + nat (e - e')"
    using c by (rule ndigits_mult_pow)
  ultimately show ?thesis using True by (simp add: adjusted_def)
next
  case False
  define j where "j = nat (e' - e)"
  define c2 where "c2 = c div 10 ^ j"
  have r: "rescale_down c e e' = c2" using False by (simp add: rescale_down_def c2_def j_def)
  show ?thesis
  proof (cases "c2 = 0")
    case True
    with r show ?thesis by simp
  next
    case nz: False
    have jl: "j < ndigits c"
    proof (rule ccontr)
      assume "\<not> j < ndigits c"
      then have "(10::nat) ^ ndigits c \<le> 10 ^ j" by (intro power_increasing) simp_all
      with ndigits_upper [of c] have "c < 10 ^ j" by (rule less_le_trans)
      then have "c2 = 0" by (simp add: c2_def)
      with nz show False by simp
    qed
    then obtain p where p: "ndigits c = j + p" "0 < p"
      by (metis less_imp_add_positive)
    have "c < 10 ^ (j + p)" using ndigits_upper [of c] p by simp
    then have "c2 < 10 ^ p" unfolding c2_def by (rule div_pow_lt)
    then have "ndigits c2 \<le> p" using p(2) by (rule ndigits_le)
    with p False r show ?thesis by (simp add: adjusted_def j_def)
  qed
qed

lemma quantize_succeeds:
  assumes rng: "Etiny \<le> e'" "e' \<le> Emax"
    and fit: "c = 0 \<or> (adjusted c e \<le> Emax \<and> adjusted c e - e' + 1 \<le> int prec)"
  shows "fst (trap (quantize_down (Finite s c e) (Finite s' c' e')) fl)
           = Inr (Finite s (rescale_down c e e') e')"
proof (cases "c = 0")
  case True
  have "fst (decimal_fix s 0 e') = {}" "snd (decimal_fix s 0 e') = Finite s 0 e'"
    using rng by (simp_all add: decimal_fix_def Let_def)
  then have "decimal_fix s 0 e' = ({}, Finite s 0 e')" by (simp add: prod_eq_iff)
  with True rng show ?thesis
    by (simp add: quantize_down_def trap_def rescale_down_def)
next
  case False
  define c2 where "c2 = rescale_down c e e'"
  from fit False have f: "adjusted c e \<le> Emax" "adjusted c e - e' + 1 \<le> int prec" by simp_all
  have c2b: "adjusted c2 e' \<le> Emax \<and> ndigits c2 \<le> prec"
    using rescale_digits [OF False, of e e'] f rng ndigits_0
    by (auto simp: c2_def adjusted_def prec_def)
  have fx: "snd (decimal_fix s c2 e') = Finite s c2 e' \<and> Overflow \<notin> fst (decimal_fix s c2 e')"
  proof (cases "c2 = 0")
    case True
    then show ?thesis using fix_zero [of s e'] rng by simp
  next
    case False
    then show ?thesis using fix_id [of c2 e' s] c2b rng by simp
  qed
  define st where "st = (if c2 \<noteq> 0 \<and> adjusted c2 e' < Emin then {Subnormal} else {})
                 \<union> (if e' > e
                    then {Rounded} \<union> (if c2 * 10 ^ nat (e' - e) \<noteq> c then {Inexact} else {})
                    else {})"
  have q: "quantize_down (Finite s c e) (Finite s' c' e')
            = (st \<union> fst (decimal_fix s c2 e'), snd (decimal_fix s c2 e'))"
    using False rng f c2b by (simp add: quantize_down_def Let_def c2_def st_def)
  have "InvalidOperation \<notin> st" "Overflow \<notin> st" "DivisionByZero \<notin> st" by (simp_all add: st_def)
  with fx fix_signals [of s c2 e'] show ?thesis
    unfolding q c2_def [symmetric] by (simp add: trap_def)
qed

lemma add_succeeds:
  fixes s1 s2 c1 c2 e1 e2
  defines "m \<equiv> min e1 e2"
  defines "v \<equiv> signed_coeff s1 c1 * 10 ^ nat (e1 - m) + signed_coeff s2 c2 * 10 ^ nat (e2 - m)"
  assumes ov: "Overflow \<notin> fst (decimal_fix (if v = 0 then s1 \<and> s2 else v < 0) (nat \<bar>v\<bar>) m)"
  shows "fst (trap (decimal_add (Finite s1 c1 e1) (Finite s2 c2 e2)) fl)
           = Inr (snd (decimal_fix (if v = 0 then s1 \<and> s2 else v < 0) (nat \<bar>v\<bar>) m))"
proof -
  have "decimal_add (Finite s1 c1 e1) (Finite s2 c2 e2)
          = decimal_fix (if v = 0 then s1 \<and> s2 else v < 0) (nat \<bar>v\<bar>) m"
    by (simp add: decimal_add_def Let_def m_def v_def)
  with ov fix_signals [of "if v = 0 then s1 \<and> s2 else v < 0" "nat \<bar>v\<bar>" m] show ?thesis
    by (simp add: trap_def)
qed

subsection \<open>Values and the numeric order\<close>





subsection \<open>When nothing is rounded away, and when nothing is raised\<close>



lemma fix_no_overflow:
  assumes "c \<noteq> 0" "adjusted c e + 1 \<le> Emax"
  shows "Overflow \<notin> fst (decimal_fix s c e)"
  using assms(2) unfolding fix_unfold [OF assms(1)]
  by (simp add: adjusted_def ctx_defs)

lemma pow10_le_exp: "(10::nat) ^ a \<le> 10 ^ b \<Longrightarrow> a \<le> b"
  by simp

lemma fix_adjusted:
  assumes c: "c \<noteq> 0" and ov: "Overflow \<notin> fst (decimal_fix s c e)"
  shows "\<exists>c' e'. snd (decimal_fix s c e) = Finite s c' e'
           \<and> (c' = 0 \<or> adjusted c' e' \<le> max (adjusted c e + 1) Etiny)"
  using fix_rounded [OF c ov]
proof
  assume "snd (decimal_fix s c e) = Finite s c e"
  moreover have "adjusted c e \<le> max (adjusted c e + 1) Etiny" by (simp add: le_max_iff_disj)
  ultimately show ?thesis by blast
next
  assume "\<exists>k c' e'. snd (decimal_fix s c e) = Finite s c' e' \<and> 0 < k \<and> e + int k \<le> e'
        \<and> e' \<le> e + int k + 1
        \<and> (c div 10 ^ k) * 10 ^ k \<le> c' * 10 ^ nat (e' - e)
        \<and> c' * 10 ^ nat (e' - e) \<le> (c div 10 ^ k + 1) * 10 ^ k
        \<and> (e + int k = Etiny \<or> (prec \<le> ndigits c' \<and> int k = int (ndigits c) - int prec))"
  then obtain k c' e' where res: "snd (decimal_fix s c e) = Finite s c' e'"
    and e': "e + int k \<le> e'"
    and hi: "c' * 10 ^ nat (e' - e) \<le> (c div 10 ^ k + 1) * 10 ^ k"
    and dig: "e + int k = Etiny \<or> int k = int (ndigits c) - int prec"
    by blast
  have "c' = 0 \<or> adjusted c' e' \<le> max (adjusted c e + 1) Etiny"
  proof (cases "c' = 0")
    case True
    then show ?thesis ..
  next
    case False
    define j where "j = nat (e' - e)"
    have j: "e' = e + int j" using e' by (simp add: j_def)
    obtain d where d: "ndigits c' = Suc d" using ndigits_pos [of c'] by (cases "ndigits c'") simp_all
    have "10 ^ d \<le> c'" using ndigits_lower [OF False] d by simp
    then have "10 ^ d * 10 ^ j \<le> c' * 10 ^ j" by (rule mult_le_mono1)
    moreover have "c' * 10 ^ j \<le> (c div 10 ^ k + 1) * 10 ^ k" using hi by (simp only: j_def)
    ultimately have "10 ^ d * 10 ^ j \<le> (c div 10 ^ k + 1) * 10 ^ k" by (rule order_trans)
    then have low: "10 ^ (d + j) \<le> (c div 10 ^ k + 1) * 10 ^ k"
      by (simp only: power_add)
    have "adjusted c' e' \<le> max (adjusted c e + 1) Etiny"
    proof (cases "k \<le> ndigits c")
      case True
      then obtain p where p: "ndigits c = k + p" by (metis le_Suc_ex)
      have "c < 10 ^ (k + p)" using ndigits_upper [of c] p by simp
      then have "c div 10 ^ k < 10 ^ p" by (rule div_pow_lt)
      then have "c div 10 ^ k + 1 \<le> 10 ^ p" by simp
      then have "(c div 10 ^ k + 1) * 10 ^ k \<le> 10 ^ p * 10 ^ k" by (rule mult_le_mono1)
      with low have "(10::nat) ^ (d + j) \<le> 10 ^ (p + k)" by (simp add: power_add)
      then have "d + j \<le> p + k" by (rule pow10_le_exp)
      then have "adjusted c' e' \<le> adjusted c e + 1" using d p j by (simp add: adjusted_def)
      then show ?thesis by simp
    next
      case False
      then have "(10::nat) ^ ndigits c \<le> 10 ^ k" by (intro power_increasing) simp_all
      with ndigits_upper [of c] have "c < 10 ^ k" by (rule less_le_trans)
      then have "c div 10 ^ k = 0" by simp
      with low have "(10::nat) ^ (d + j) \<le> 10 ^ k" by simp
      then have "d + j \<le> k" by (rule pow10_le_exp)
      moreover from False dig have "e + int k = Etiny" by (auto simp: prec_def)
      ultimately have "adjusted c' e' \<le> Etiny" using d j by (simp add: adjusted_def)
      then show ?thesis by simp
    qed
    then show ?thesis ..
  qed
  with res show ?thesis by blast
qed

lemma scaled_bound:
  assumes "m \<le> e" "adjusted c e \<le> A"
  shows "c * 10 ^ nat (e - m) < 10 ^ nat (A + 1 - m)"
proof -
  have "c * 10 ^ nat (e - m) < 10 ^ ndigits c * 10 ^ nat (e - m)"
    using ndigits_upper [of c] by simp
  also have "\<dots> = 10 ^ (ndigits c + nat (e - m))" by (simp add: power_add)
  also have "\<dots> \<le> 10 ^ nat (A + 1 - m)"
    using assms by (intro power_increasing) (simp_all add: adjusted_def)
  finally show ?thesis .
qed

lemma sum_adjusted:
  fixes s1 s2 c1 c2 e1 e2
  defines "m \<equiv> min e1 e2"
  defines "v \<equiv> signed_coeff s1 c1 * 10 ^ nat (e1 - m) + signed_coeff s2 c2 * 10 ^ nat (e2 - m)"
  assumes A: "adjusted c1 e1 \<le> A" "adjusted c2 e2 \<le> A"
  shows "adjusted (nat \<bar>v\<bar>) m \<le> A + 1"
proof -
  have m: "m \<le> e1" "m \<le> e2" by (simp_all add: m_def)
  define x where "x = c1 * 10 ^ nat (e1 - m)"
  define y where "y = c2 * 10 ^ nat (e2 - m)"
  define n where "n = nat (A + 1 - m)"
  have xb: "x < 10 ^ n" unfolding x_def n_def using m(1) A(1) by (rule scaled_bound)
  have yb: "y < 10 ^ n" unfolding y_def n_def using m(2) A(2) by (rule scaled_bound)
  define P where "P = signed_coeff s1 c1 * 10 ^ nat (e1 - m)"
  define Q where "Q = signed_coeff s2 c2 * 10 ^ nat (e2 - m)"
  have X: "P = int x \<or> P = - int x"
    by (simp add: P_def x_def signed_coeff_def)
  have Y: "Q = int y \<or> Q = - int y"
    by (simp add: Q_def y_def signed_coeff_def)
  have "v = P + Q" by (simp add: v_def P_def Q_def)
  with X Y have "\<bar>v\<bar> \<le> int x + int y" by arith
  then have "nat \<bar>v\<bar> \<le> x + y" by linarith
  also have "\<dots> < 10 ^ Suc n" using xb yb by simp
  finally have "ndigits (nat \<bar>v\<bar>) \<le> Suc n" by (rule ndigits_le) simp
  moreover have "m \<le> A" using A(1) m(1) ndigits_pos [of c1] by (simp add: adjusted_def)
  ultimately show ?thesis by (simp add: adjusted_def n_def)
qed

lemma candidate_in_range:
  assumes rng: "Etiny \<le> te"
    and A: "adjusted c1 e1 \<le> A" "adjusted tc te \<le> A" "A + 2 \<le> Emax" "A - te \<le> 25"
  shows "\<exists>s c. candidate (Float s1 c1 e1) (Finite ts tc te) = Inr (Finite s c te)"
proof -
  define m where "m = min e1 te"
  define v where "v = signed_coeff s1 c1 * 10 ^ nat (e1 - m) + signed_coeff ts tc * 10 ^ nat (te - m)"
  define V where "V = nat \<bar>v\<bar>"
  define sg where "sg = (if v = 0 then s1 \<and> ts else v < 0)"
  have teA: "te \<le> A" using A(2) ndigits_pos [of tc] by (simp add: adjusted_def)
  with A(3) have teE: "te \<le> Emax" by simp
  have "\<exists>c' e'. snd (decimal_fix sg V m) = Finite sg c' e' \<and> Overflow \<notin> fst (decimal_fix sg V m)
          \<and> (c' = 0 \<or> adjusted c' e' \<le> max (A + 2) Etiny)"
  proof (cases "V = 0")
    case True
    then show ?thesis using fix_zero [of sg m] by simp
  next
    case False
    have adj: "adjusted V m \<le> A + 1"
      unfolding V_def v_def m_def using A(1,2) by (rule sum_adjusted)
    with A(3) have ov: "Overflow \<notin> fst (decimal_fix sg V m)"
      by (intro fix_no_overflow [OF False]) simp
    from fix_adjusted [OF False ov] obtain c' e' where
      "snd (decimal_fix sg V m) = Finite sg c' e'"
      "c' = 0 \<or> adjusted c' e' \<le> max (adjusted V m + 1) Etiny" by blast
    with adj ov show ?thesis by (auto simp: le_max_iff_disj)
  qed
  then obtain c' e' where nb: "snd (decimal_fix sg V m) = Finite sg c' e'"
    and ov: "Overflow \<notin> fst (decimal_fix sg V m)"
    and adj: "c' = 0 \<or> adjusted c' e' \<le> max (A + 2) Etiny" by blast
  have a: "fst (trap (decimal_add (Finite s1 c1 e1) (Finite ts tc te)) {}) = Inr (Finite sg c' e')"
    using add_succeeds [of s1 c1 e1 te ts tc "{}", folded m_def, folded v_def, folded sg_def V_def]
      ov nb by simp
  have "c' = 0 \<or> (adjusted c' e' \<le> Emax \<and> adjusted c' e' - te + 1 \<le> int prec)"
    using adj A(3,4) rng by (auto simp: ctx_defs le_max_iff_disj)
  from quantize_succeeds [OF rng teE this, of sg ts tc "{}"]
  have "fst (trap (quantize_down (Finite sg c' e') (Finite ts tc te)) {})
          = Inr (Finite sg (rescale_down c' e' te) te)" .
  with a show ?thesis by (simp add: candidate_def)
qed

lemma raised_exceptions:
  assumes "fst (calculate_new_bid b t m fl) = Inl ex"
  shows "ex = InvalidOperation \<or> ex = Overflow"
proof -
  have t: "\<And>r fl ex. fst (trap r fl) = Inl ex \<Longrightarrow> ex = InvalidOperation \<or> ex = Overflow \<or> ex = DivisionByZero"
    by (auto simp: trap_def split: if_splits)
  have d1: "DivisionByZero \<notin> fst (decimal_add a t)" for a
    using fix_signals by (cases a; cases t) (simp_all add: decimal_add_def Let_def)
  have d2: "DivisionByZero \<notin> fst (quantize_down a t)" for a
    using fix_signals by (cases a; cases t) (simp_all add: quantize_down_def Let_def)
  have t': "fst (trap r fl) = Inl ex \<Longrightarrow> DivisionByZero \<notin> fst r \<Longrightarrow> ex = InvalidOperation \<or> ex = Overflow"
    for r :: "signal set \<times> decimal" and fl ex
    by (auto simp: trap_def split: if_splits)
  from assms show ?thesis
    unfolding calculate_new_bid_result candidate_def
    by (auto split: sum.splits if_splits dest: t' [OF _ d1] t' [OF _ d2])
qed

subsection \<open>The scenarios of the specification, evaluated\<close>

lemma scenario_C:
  "fst (calculate_new_bid (Float False 49 (- 3)) (Finite False 1 (- 3)) (Float False 5 (- 2)) fl)
     = Inr (Some (Finite False 50 (- 3)))"
  by (simp add: decimal_eval)

lemma candidate_at_ceiling:
  "candidate (Float False 5 (- 2)) (Finite False 1 (- 3)) = Inr (Finite False 51 (- 3))"
  by (simp add: candidate_def decimal_eval)

lemma ndigits_34: "ndigits 1000000000000000000000000000000001 = 34"
  using ndigits_unique [of 33 1000000000000000000000000000000001] by simp

lemma ndigits_28: "ndigits 1000000000000000000000000000 = 28"
  using ndigits_unique [of 27 1000000000000000000000000000] by simp

lemma add_1e30:
  "decimal_add (Finite False 1 30) (Finite False 1 (- 3))
     = ({Inexact, Rounded}, Finite False 1000000000000000000000000000 3)"
  by (simp add: decimal_add_def decimal_fix_def round_half_even_def signed_coeff_def ctx_defs
      ndigits_34 ndigits_28)

lemma quantize_1e30:
  "quantize_down (Finite False 1000000000000000000000000000 3) (Finite False 1 (- 3))
     = ({InvalidOperation}, NaN)"
  by (simp add: quantize_down_def adjusted_def ctx_defs ndigits_28)

lemma candidate_1e30:
  "candidate (Float False 1 30) (Finite False 1 (- 3)) = Inl InvalidOperation"
  using add_1e30 quantize_1e30 by (simp add: candidate_def trap_def traps_def)

lemma scenario_A:
  "fst (calculate_new_bid float_0 (Finite False 1 (- 3)) (Float False 5 (- 2)) fl)
     = Inr (Some (Finite False 1 (- 3)))"
  by (simp add: decimal_eval float_0_def)

lemma off_grid:
  "fst (calculate_new_bid (Float False 1 (- 3)) (Finite False 5 (- 3)) (Float False 5 (- 2)) fl)
     = Inr (Some (Finite False 6 (- 3)))"
  by (simp add: decimal_eval)

lemma ndigits_17: "ndigits 30100000000000004 = 17"
  using ndigits_unique [of 16 30100000000000004] by simp

lemma ndigits_3: "ndigits 301 = 3"
  using ndigits_unique [of 2 301] by simp

lemma add_noisy:
  "decimal_add (Finite False 30000000000000004 (- 17)) (Finite False 1 (- 3))
     = ({}, Finite False 30100000000000004 (- 17))"
  by (simp add: decimal_add_def decimal_fix_def signed_coeff_def ctx_defs ndigits_17)

lemma quantize_noisy:
  "quantize_down (Finite False 30100000000000004 (- 17)) (Finite False 1 (- 3))
     = ({Inexact, Rounded}, Finite False 301 (- 3))"
  by (simp add: quantize_down_def decimal_fix_def adjusted_def rescale_down_def ctx_defs
      ndigits_17 ndigits_3)

lemma candidate_noisy:
  "candidate (Float False 30000000000000004 (- 17)) (Finite False 1 (- 3)) = Inr (Finite False 301 (- 3))"
  using add_noisy quantize_noisy by (simp add: candidate_def trap_def traps_def)

lemma noisy:
  "fst (calculate_new_bid (Float False 30000000000000004 (- 17)) (Finite False 1 (- 3)) (Float False 5 (- 1)) fl)
     = Inr (Some (Finite False 301 (- 3)))"
  using candidate_noisy
  by (simp add: calculate_new_bid_result is_nan_def num_lt_def signed_coeff_def Let_def)

subsection \<open>The ceiling\<close>

text \<open>
  C1: for every input, a price that \<open>calculate_new_bid\<close> returns is less than or equal
  to \<open>max_price\<close>. The price is the decimal handed to \<open>float\<close>, the ceiling is
  \<open>Decimal(str(max_price))\<close>, and the order is the numeric one.
\<close>

theorem ceiling_never_exceeded:
  assumes "fst (calculate_new_bid best_bid tick_size max_price fl) = Inr (Some price)"
  shows "num_le price (Decimal_of_str max_price)"
  using returned_price(2,4,5) [OF assms] by (rule not_num_lt)

theorem ceiling_never_exceeded_witness:
  "fst (calculate_new_bid (Float False 49 (- 3)) (Finite False 1 (- 3)) (Float False 5 (- 2)) {})
     = Inr (Some (Finite False 50 (- 3)))
   \<and> num_le (Finite False 50 (- 3)) (Decimal_of_str (Float False 5 (- 2)))"
  using ceiling_never_exceeded [OF scenario_C [of "{}"]] scenario_C [of "{}"] by simp

text \<open>
  The claim C4 as it is written fails: with \<open>best_bid = 1e30\<close>, \<open>tick_size = 0.001\<close> and
  \<open>max_price = 0.05\<close> the best bid is above the ceiling, and the call raises
  \<open>decimal.InvalidOperation\<close> (the candidate does not fit 28 digits at three decimal
  places) where the claim has it return \<open>None\<close>.
\<close>

theorem at_ceiling_counterexample:
  "float_le (Float False 5 (- 2)) (Float False 1 30)
   \<and> fst (calculate_new_bid (Float False 1 30) (Finite False 1 (- 3)) (Float False 5 (- 2)) {})
       = Inl InvalidOperation
   \<and> fst (calculate_new_bid (Float False 1 30) (Finite False 1 (- 3)) (Float False 5 (- 2)) {})
       \<noteq> Inr None"
  using candidate_1e30
  by (simp add: calculate_new_bid_result float_le_def signed_coeff_def Let_def)

text \<open>
  C4, amended: for every \<open>best_bid >= max_price\<close> and every tick size that is not a
  NaN, \<open>calculate_new_bid\<close> returns no price: it returns \<open>None\<close> whenever the addition
  and the quantize succeed, and otherwise raises the exception that they raise.
\<close>

theorem at_ceiling_no_price:
  assumes "float_le max_price best_bid" and "\<not> is_nan tick_size"
  shows "fst (calculate_new_bid best_bid tick_size max_price fl) =
           (case candidate best_bid tick_size of Inl ex \<Rightarrow> Inl ex | Inr new_bid \<Rightarrow> Inr None)"
proof (cases "candidate best_bid tick_size")
  case (Inl ex)
  then show ?thesis by (simp add: calculate_new_bid_result)
next
  case (Inr p)
  from assms(1) have nn: "\<not> is_nan (Decimal_of_str max_price)" "\<not> is_nan (Decimal_of_str best_bid)"
    and le: "num_le (Decimal_of_str max_price) (Decimal_of_str best_bid)"
    using num_le_not_nan by (auto simp: float_le_def)
  from candidate_not_nan [OF nn(2) assms(2) Inr] have "\<not> is_nan p" .
  with Inr nn le show ?thesis by (simp add: calculate_new_bid_result)
qed

theorem at_ceiling_no_price_witness:
  "float_le (Float False 5 (- 2)) (Float False 5 (- 2)) \<and> \<not> is_nan (Finite False 1 (- 3))
   \<and> fst (calculate_new_bid (Float False 5 (- 2)) (Finite False 1 (- 3)) (Float False 5 (- 2)) {})
       = Inr None"
proof -
  have h1: "float_le (Float False 5 (- 2)) (Float False 5 (- 2))" by (simp add: float_le_def)
  have h2: "\<not> is_nan (Finite False 1 (- 3))" by (simp add: is_nan_def)
  from at_ceiling_no_price [OF h1 h2, of "{}"] candidate_at_ceiling h1 h2 show ?thesis by simp
qed


subsection \<open>The tick grid\<close>

text \<open>
  The claim C2 as it is written fails: with \<open>best_bid = 0.001\<close>, \<open>tick_size = 0.005\<close> and
  \<open>max_price = 0.05\<close> the call returns \<open>0.006\<close>, which is not an integer multiple of
  \<open>0.005\<close>. \<open>quantize\<close> rounds to the exponent of the tick, not to its multiples.
\<close>

theorem tick_alignment_counterexample:
  "fst (calculate_new_bid (Float False 1 (- 3)) (Finite False 5 (- 3)) (Float False 5 (- 2)) {})
     = Inr (Some (Finite False 6 (- 3)))
   \<and> \<not> tick_aligned (Finite False 6 (- 3)) (Finite False 5 (- 3))"
  using off_grid [of "{}"] by (simp add: signed_coeff_def)

text \<open>
  C2, amended: for every \<open>best_bid\<close> (tick-aligned or not) and every finite \<open>tick_size\<close>,
  a price that \<open>calculate_new_bid\<close> returns has the exponent of the tick: it is an
  integer multiple of ten to that exponent, so it is an integer multiple of \<open>tick_size\<close>
  whenever the tick is a power of ten (coefficient 1), as \<open>0.1\<close>, \<open>0.01\<close>, \<open>0.001\<close> and
  \<open>0.0001\<close> are.
\<close>

theorem price_on_decimal_grid:
  assumes "fst (calculate_new_bid best_bid (Finite ts tc te) max_price fl) = Inr (Some price)"
  shows "tick_aligned price (Finite False 1 te)
         \<and> (tc = 1 \<longrightarrow> tick_aligned price (Finite ts tc te))"
proof -
  from returned_price(1) [OF assms] obtain nb where
    q: "fst (trap (quantize_down nb (Finite ts tc te)) {}) = Inr price" by blast
  from quantize_finite_only [OF q returned_price(2) [OF assms]] obtain s c e
    where "nb = Finite s c e" by blast
  with quantize_ok [of s c e ts tc te "{}" price] q
  have "price = Finite s (rescale_down c e te) te" by simp
  then show ?thesis by (cases ts) (simp_all add: signed_coeff_def)
qed

theorem price_on_decimal_grid_witness:
  "fst (calculate_new_bid (Float False 30000000000000004 (- 17)) (Finite False 1 (- 3))
          (Float False 5 (- 1)) {}) = Inr (Some (Finite False 301 (- 3)))
   \<and> tick_aligned (Finite False 301 (- 3)) (Finite False 1 (- 3))"
  using price_on_decimal_grid [OF noisy [of "{}"]] noisy [of "{}"] by simp




subsection \<open>The first bid\<close>

lemma empty_book_sentinel:
  "client_get_order_book cl token_id = Inr [] \<Longrightarrow> fst (get_best_bid cl token_id st) = Inr float_0"
  by (simp add: get_best_bid_def bind_io_def call_client_def return_io_def)



subsection \<open>Exceptions\<close>

text \<open>
  The claim C6 as it is written fails: with \<open>best_bid = nan\<close> the sum and the candidate
  are NaN, and the comparison \<open>new_bid > max_price_decimal\<close> raises
  \<open>decimal.InvalidOperation\<close>.
\<close>

theorem never_fails_counterexample:
  "fst (calculate_new_bid FloatNaN (Finite False 1 (- 3)) (Float False 5 (- 2)) {})
     = Inl InvalidOperation"
  by (simp add: calculate_new_bid_result candidate_def decimal_add_def quantize_down_def
      trap_def is_nan_def)

text \<open>
  C6, amended: \<open>calculate_new_bid\<close> has no loop and ends on every input, and it does not
  raise when \<open>best_bid\<close> is finite, \<open>max_price\<close> is not \<open>nan\<close> and \<open>tick_size\<close> is finite with
  an exponent of at least \<open>Etiny\<close>, the leading digits of \<open>best_bid\<close> and of \<open>tick_size\<close>
  being at most 25 places above the last place of the tick and two below \<open>Emax\<close>: it
  then returns \<open>None\<close> or a price with the exponent of the tick. (Outside this range it
  raises \<open>InvalidOperation\<close> or \<open>Overflow\<close>, and nothing else: \<open>raised_exceptions\<close>.)
\<close>

theorem no_exception_in_range:
  assumes "max_price \<noteq> FloatNaN" and "Etiny \<le> te"
    and "adjusted c1 e1 + 2 \<le> Emax" and "adjusted tc te + 2 \<le> Emax"
    and "adjusted c1 e1 - te \<le> 25" and "adjusted tc te - te \<le> 25"
  shows "fst (calculate_new_bid (Float s1 c1 e1) (Finite ts tc te) max_price fl) = Inr None
         \<or> (\<exists>price. fst (calculate_new_bid (Float s1 c1 e1) (Finite ts tc te) max_price fl)
                        = Inr (Some price)
                      \<and> tick_aligned price (Finite False 1 te))"
proof -
  define A where "A = max (adjusted c1 e1) (adjusted tc te)"
  have "adjusted c1 e1 \<le> A" "adjusted tc te \<le> A" "A + 2 \<le> Emax" "A - te \<le> 25"
    using assms(3-6) by (simp_all add: A_def)
  from candidate_in_range [OF assms(2) this] obtain s c where
    c: "candidate (Float s1 c1 e1) (Finite ts tc te) = Inr (Finite s c te)" by blast
  have al: "tick_aligned (Finite s c te) (Finite False 1 te)" by (simp add: signed_coeff_def)
  from assms(1) have "\<not> is_nan (Decimal_of_str max_price)"
    by (cases max_price) (simp_all add: is_nan_def)
  with c al show ?thesis
    by (simp add: calculate_new_bid_result is_nan_def)
qed

theorem no_exception_in_range_witness:
  "Float False 5 (- 2) \<noteq> FloatNaN \<and> Etiny \<le> - 3
   \<and> adjusted 0 (- 1) + 2 \<le> Emax \<and> adjusted 1 (- 3) + 2 \<le> Emax
   \<and> adjusted 0 (- 1) - (- 3) \<le> 25 \<and> adjusted 1 (- 3) - (- 3) \<le> 25
   \<and> fst (calculate_new_bid (Float False 0 (- 1)) (Finite False 1 (- 3)) (Float False 5 (- 2)) {})
       = Inr (Some (Finite False 1 (- 3)))
   \<and> tick_aligned (Finite False 1 (- 3)) (Finite False 1 (- 3))"
proof -
  have h1: "Float False 5 (- 2) \<noteq> FloatNaN" by simp
  have h2: "Etiny \<le> - 3" by (simp add: ctx_defs)
  have h3: "adjusted 0 (- 1) + 2 \<le> Emax" "adjusted 1 (- 3) + 2 \<le> Emax"
    "adjusted 0 (- 1) - (- 3) \<le> 25" "adjusted 1 (- 3) - (- 3) \<le> 25"
    by (simp_all add: adjusted_def ndigits.simps ctx_defs)
  from no_exception_in_range [OF h1 h2 h3, of False False "{}"] h1 h2 h3
    scenario_A [of "{}", unfolded float_0_def]
  show ?thesis by auto
qed

subsection \<open>The configuration\<close>

lemma validate_raises_iff:
  "(\<exists>msg. validate cls = Inl (ValueError msg)) \<longleftrightarrow>
     (PRIVATE_KEY cls = [] \<or> \<not> startswith (PRIVATE_KEY cls) ''0x''
      \<or> FUNDER_ADDRESS cls = [] \<or> \<not> startswith (FUNDER_ADDRESS cls) ''0x''
      \<or> float_le (MAX_BID_PRICE cls) float_0 \<or> float_le (ORDER_SIZE cls) float_0)"
  by (simp add: validate_def Let_def)

lemma validate_returns_iff:
  "validate cls = Inr () \<longleftrightarrow>
     \<not> (PRIVATE_KEY cls = [] \<or> \<not> startswith (PRIVATE_KEY cls) ''0x''
      \<or> FUNDER_ADDRESS cls = [] \<or> \<not> startswith (FUNDER_ADDRESS cls) ''0x''
      \<or> float_le (MAX_BID_PRICE cls) float_0 \<or> float_le (ORDER_SIZE cls) float_0)"
  by (simp add: validate_def Let_def)

lemma main_configuration_error:
  "validate cfg = Inl e \<Longrightarrow> main cl (Inr args) cfg st = (1, st)"
  by (simp add: main_def)

text \<open>
  C8: \<open>Config.validate\<close> raises exactly when a key is missing or without the prefix
  \<open>0x\<close>, or \<open>MAX_BID_PRICE <= 0\<close>, or \<open>ORDER_SIZE <= 0\<close> (\<open>validate_raises_iff\<close>), and
  \<open>main\<close> then returns 1 with no call made (\<open>main_configuration_error\<close>). A price of
  \<open>nan\<close> is not positive, and the message says that the price must be positive, but
  \<open>nan <= 0\<close> is false: the configuration below passes the validation.
\<close>

theorem validate_accepts_nan:
  "validate \<lparr>HOST = ''https://clob.polymarket.com'', CHAIN_ID = 137, PRIVATE_KEY = ''0xabc'',
             FUNDER_ADDRESS = ''0xdef'', MAX_BID_PRICE = FloatNaN,
             ORDER_SIZE = Float False 50 (- 1), DRY_RUN = True\<rparr> = Inr ()
   \<and> \<not> float_lt float_0 FloatNaN"
  by (simp add: validate_returns_iff startswith_def float_le_def float_lt_def num_lt_def float_0_def
      signed_coeff_def Let_def)

subsection \<open>No hidden state\<close>

text \<open>
  C9: two calls of \<open>calculate_new_bid\<close> with the same inputs yield the same output. The
  only state a call reads or writes is the flags of the decimal context: the output does
  not depend on them, so a second call, made with the flags the first one left, returns
  what the first returned.
\<close>

theorem deterministic:
  "fst (calculate_new_bid best_bid tick_size max_price fl)
     = fst (calculate_new_bid best_bid tick_size max_price fl')
   \<and> fst (calculate_new_bid best_bid tick_size max_price
             (snd (calculate_new_bid best_bid tick_size max_price fl)))
     = fst (calculate_new_bid best_bid tick_size max_price fl)"
  by (simp add: calculate_new_bid_result)

subsection \<open>The dry run\<close>

text \<open>
  C7: with \<open>dry_run\<close> true, \<open>place_order\<close> returns \<open>None\<close> and makes no call to the client:
  the state, with its list of calls, is the one it was given.
\<close>

theorem dry_run_no_submission:
  "place_order cl token_id price size_shares True st = (Inr None, st)"
  by (simp add: place_order_def return_io_def)

end
